theory Spec2Isabelle
  imports Complex_Main "HOL-Library.Multiset" "HOL-Library.Product_Lexorder"
begin

section \<open>Tokens, documents and Python slices\<close>

text \<open>
  The tokenizer and tagger are an external collaborator: the input text arrives as the
  sequence of tagged tokens the parser produces for it. Each token carries its surface
  text, its trailing whitespace, its part-of-speech tag and the stop-word and punctuation
  flags.
\<close>

record tagged =
  tok_text :: string
  whitespace :: string
  pos :: string
  is_stop :: bool
  is_punct :: bool

text \<open>
  A token of a parsed document is the tagged word together with its position in the
  document. Two tokens of one document compare equal exactly when they sit at the same
  position, and they are ordered by position; a span is a slice of the document and two
  spans of one document are equal exactly when they cover the same positions. With the
  position stored in the token, HOL equality on tokens and on spans of one document is
  that comparison.
\<close>

type_synonym token = "nat \<times> tagged"

type_synonym span = "token list"

definition parser :: "tagged list \<Rightarrow> token list" where
  "parser raw = enumerate 0 raw"

text \<open>\<^verbatim>\<open>xs[a:b]\<close> for non-negative \<open>a\<close> and \<open>b\<close>: the stop index is truncated at the end of the list.\<close>

definition slice :: "'a list \<Rightarrow> nat \<Rightarrow> nat \<Rightarrow> 'a list" where
  "slice xs a b = drop a (take b xs)"

text \<open>\<^verbatim>\<open>xs[:-2]\<close>: everything but the last two elements, empty for a list of fewer than two.\<close>

definition drop_last2 :: "'a list \<Rightarrow> 'a list" where
  "drop_last2 xs = take (length xs - 2) xs"

section \<open>The label-indexed frame\<close>

text \<open>
  The adjacency grid is a data frame: a list of row labels, a list of column labels and
  one integer per pair of labels. Cells are addressed by label, so rows that carry the
  same label are the same row for every read and write.
\<close>

record 'l frame =
  index :: "'l list"
  columns :: "'l list"
  cell :: "'l \<Rightarrow> 'l \<Rightarrow> int"

text \<open>
  The exceptions of the pipeline: a label or dictionary key that is not there, and the
  exception with which the ranking engine gives up when its iteration does not converge.
\<close>

datatype error = KeyError | PowerIterationFailedConvergence

definition DataFrame :: "'l list \<Rightarrow> 'l list \<Rightarrow> int \<Rightarrow> 'l frame" where
  "DataFrame cols idx v = \<lparr>index = idx, columns = cols, cell = (\<lambda>r c. v)\<rparr>"

definition as_matrix :: "'l frame \<Rightarrow> int list list" where
  "as_matrix df = map (\<lambda>r. map (\<lambda>c. cell df r c) (columns df)) (index df)"

text \<open>
  \<^verbatim>\<open>df.loc[r, cs] = df.loc[r, cs] + 1\<close> with a list of column labels: the right-hand side
  is read once, so every listed cell grows by one however often its label is listed.
  A label that is not in the frame is a KeyError.
\<close>

definition loc_add1 :: "'l frame \<Rightarrow> 'l \<Rightarrow> 'l list \<Rightarrow> error + 'l frame" where
  "loc_add1 df r cs =
     (if r \<in> set (index df) \<and> set cs \<subseteq> set (columns df)
      then Inr (df\<lparr>cell := (\<lambda>r' c'. if r' = r \<and> c' \<in> set cs then cell df r' c' + 1
                                    else cell df r' c')\<rparr>)
      else Inl KeyError)"

text \<open>\<^verbatim>\<open>df.loc[r, c] = df.loc[r, c] + 1\<close> with scalar labels.\<close>

definition loc_inc :: "'l frame \<Rightarrow> 'l \<Rightarrow> 'l \<Rightarrow> error + 'l frame" where
  "loc_inc df r c =
     (if r \<in> set (index df) \<and> c \<in> set (columns df)
      then Inr (df\<lparr>cell := (\<lambda>r' c'. if r' = r \<and> c' = c then cell df r' c' + 1
                                    else cell df r' c')\<rparr>)
      else Inl KeyError)"

text \<open>A \<^verbatim>\<open>for\<close> loop over a list that updates a state and stops at the first exception.\<close>

fun for_each :: "('x \<Rightarrow> 's \<Rightarrow> error + 's) \<Rightarrow> 'x list \<Rightarrow> 's \<Rightarrow> error + 's" where
  "for_each f [] s = Inr s"
| "for_each f (x # xs) s = (case f x s of Inl e \<Rightarrow> Inl e | Inr s' \<Rightarrow> for_each f xs s')"

section \<open>The neighbour window\<close>

text \<open>
  \<^verbatim>\<open>end=max(0,len(gatsby)-(len(gatsby)-(i+5)))\<close>, on Python's unbounded integers; \<open>k\<close> is
  the literal added to \<open>i\<close> (5 for unigrams and trigrams, 15 for digrams).
\<close>

definition end_index :: "int \<Rightarrow> int \<Rightarrow> int \<Rightarrow> int" where
  "end_index len i k = max 0 (len - (len - (i + k)))"

text \<open>\<^verbatim>\<open>nextwords=gatsby[i+1:end]\<close>\<close>

definition nextwords :: "'a list \<Rightarrow> nat \<Rightarrow> int \<Rightarrow> 'a list" where
  "nextwords xs i k = slice xs (i + 1) (nat (end_index (int (length xs)) (int i) k))"

text \<open>
  \<^verbatim>\<open>inset=[x in gatsby_filt for x in nextwords]\<close> and
  \<^verbatim>\<open>neighbors=[nextwords[i] for i in range(len(nextwords)) if inset[i]]\<close>
\<close>

definition neighbors :: "'a list \<Rightarrow> 'a list \<Rightarrow> 'a list" where
  "neighbors filt nw =
     (let inset = map (\<lambda>x. x \<in> set filt) nw
      in [nw ! j. j \<leftarrow> [0..<length nw], inset ! j])"

section \<open>Keywords: single words\<close>

definition gatsby_filt :: "token list \<Rightarrow> token list" where
  "gatsby_filt gatsby = [word \<leftarrow> gatsby. is_stop (snd word) = False \<and> pos (snd word) = ''NOUN'']"

definition words :: "token list \<Rightarrow> token set" where
  "words gatsby = set (gatsby_filt gatsby)"

text \<open>
  The body of the loop over \<^verbatim>\<open>enumerate(gatsby)\<close>. The sequence \<open>seq\<close> is the one the window
  is cut from, \<open>filt\<close> the retained elements.
\<close>

definition adjacency_step :: "int \<Rightarrow> 'a list \<Rightarrow> 'a list \<Rightarrow> nat \<times> 'a \<Rightarrow> 'a frame \<Rightarrow> error + 'a frame" where
  "adjacency_step k seq filt iw df =
     (case iw of (i, word) \<Rightarrow>
        if list_ex (\<lambda>item. word = item) filt
        then (let nb = neighbors filt (nextwords seq i k)
              in if nb \<noteq> [] then loc_add1 df word nb else Inr df)
        else Inr df)"

text \<open>
  The grid and the loop, for a window literal \<open>k\<close>. A Python set has no specified
  iteration order: \<open>ws\<close> is the order in which the set \<^verbatim>\<open>words\<close> is iterated when the
  frame is created.
\<close>

definition build_adjacency :: "int \<Rightarrow> token list \<Rightarrow> token list \<Rightarrow> error + token frame" where
  "build_adjacency k gatsby ws =
     for_each (adjacency_step k gatsby (gatsby_filt gatsby)) (enumerate 0 gatsby) (DataFrame ws ws 0)"

definition adjacency :: "token list \<Rightarrow> token list \<Rightarrow> error + token frame" where
  "adjacency gatsby ws = build_adjacency 5 gatsby ws"

text \<open>
  The number of loop iterations that add one to the cell \<open>(a, b)\<close>, for the loop over the
  enumerated pairs \<open>ps\<close>.
\<close>

definition window_hits :: "int \<Rightarrow> 'a list \<Rightarrow> 'a list \<Rightarrow> (nat \<times> 'a) list \<Rightarrow> 'a \<Rightarrow> 'a \<Rightarrow> int" where
  "window_hits k seq filt ps a b =
     (\<Sum>(i, w)\<leftarrow>ps. if w = a \<and> a \<in> set filt \<and> b \<in> set (neighbors filt (nextwords seq i k)) then 1 else 0)"

section \<open>Keywords: digrams and trigrams\<close>

text \<open>\<^verbatim>\<open>str(span)\<close>: the text of the span, with the whitespace between its tokens.\<close>

fun str :: "span \<Rightarrow> string" where
  "str [] = []"
| "str [t] = tok_text (snd t)"
| "str (t # ts) = tok_text (snd t) @ whitespace (snd t) @ str ts"

definition new_gats :: "token list \<Rightarrow> span list" where
  "new_gats gatsby = map (\<lambda>i. slice gatsby i (i + 2)) [0..<length gatsby]"

text \<open>
  The comprehensions below read \<^verbatim>\<open>digram[0]\<close> and \<^verbatim>\<open>digram[1]\<close> (and \<^verbatim>\<open>trigram[2]\<close>) of the
  windows that \<^verbatim>\<open>[:-2]\<close> keeps; all of those are full windows (\<open>drop_last2_windows_full\<close>
  below), so no index is out of range.
\<close>

definition second_gats :: "token list \<Rightarrow> span list" where
  "second_gats gatsby =
     [digram \<leftarrow> drop_last2 (new_gats gatsby).
        is_punct (snd (digram ! 0)) = False \<and> is_punct (snd (digram ! 1)) = False]"

definition shorter_gats :: "token list \<Rightarrow> span list" where
  "shorter_gats gatsby =
     [digram \<leftarrow> second_gats gatsby.
        is_stop (snd (digram ! 0)) = False \<and> is_stop (snd (digram ! 1)) = False]"

definition new_gats_filt :: "token list \<Rightarrow> span list" where
  "new_gats_filt gatsby =
     [digram \<leftarrow> shorter_gats gatsby.
        pos (snd (digram ! 0)) = ''ADJ'' \<and> pos (snd (digram ! 1)) = ''NOUN'']"

definition new_gats_words :: "token list \<Rightarrow> span set" where
  "new_gats_words gatsby = set (new_gats_filt gatsby)"

text \<open>
  The body of the digram and trigram loops: the frame is labelled by the text of the
  spans, and the cells of the neighbours are raised one by one.
\<close>

definition ngram_step :: "int \<Rightarrow> span list \<Rightarrow> span list \<Rightarrow> nat \<times> span \<Rightarrow> string frame \<Rightarrow> error + string frame" where
  "ngram_step k seq filt iw df =
     (case iw of (i, digr) \<Rightarrow>
        if list_ex (\<lambda>item. digr = item) filt
        then (let nb = neighbors filt (nextwords seq i k)
              in if nb \<noteq> [] then for_each (\<lambda>n df'. loc_inc df' (str digr) (str n)) nb df
                 else Inr df)
        else Inr df)"

definition build_adjacency_digr :: "int \<Rightarrow> token list \<Rightarrow> span list \<Rightarrow> error + string frame" where
  "build_adjacency_digr k gatsby ws =
     for_each (ngram_step k (shorter_gats gatsby) (new_gats_filt gatsby))
       (enumerate 0 (shorter_gats gatsby)) (DataFrame (map str ws) (map str ws) 0)"

definition adjacency_digr :: "token list \<Rightarrow> span list \<Rightarrow> error + string frame" where
  "adjacency_digr gatsby ws = build_adjacency_digr 15 gatsby ws"

definition ngram_hits :: "int \<Rightarrow> span list \<Rightarrow> span list \<Rightarrow> (nat \<times> span) list \<Rightarrow> string \<Rightarrow> string \<Rightarrow> int" where
  "ngram_hits k seq filt ps r c =
     (\<Sum>(i, w)\<leftarrow>ps. if w \<in> set filt \<and> str w = r
                   then int (length (filter (\<lambda>n. str n = c) (neighbors filt (nextwords seq i k))))
                   else 0)"

text \<open>The first binding of \<^verbatim>\<open>trig_gats\<close> (all windows) and the second (punctuation removed).\<close>

definition trig_gats_all :: "token list \<Rightarrow> span list" where
  "trig_gats_all gatsby = map (\<lambda>i. slice gatsby i (i + 3)) [0..<length gatsby]"

definition trig_gats :: "token list \<Rightarrow> span list" where
  "trig_gats gatsby =
     [trigram \<leftarrow> drop_last2 (trig_gats_all gatsby).
        is_punct (snd (trigram ! 0)) = False \<and> is_punct (snd (trigram ! 1)) = False
        \<and> is_punct (snd (trigram ! 2)) = False]"

definition trig_gats_filt :: "token list \<Rightarrow> span list" where
  "trig_gats_filt gatsby =
     [trigram \<leftarrow> trig_gats gatsby.
        is_stop (snd (trigram ! 2)) = False
        \<and> (pos (snd (trigram ! 0)) = ''NOUN'' \<or> pos (snd (trigram ! 1)) = ''NOUN''
           \<or> pos (snd (trigram ! 2)) = ''NOUN'')]"

definition trig_gats_words :: "token list \<Rightarrow> span set" where
  "trig_gats_words gatsby = set (trig_gats_filt gatsby)"

text \<open>
  The trigram loop enumerates \<^verbatim>\<open>shorter_gats\<close>, the digram list, and cuts its windows from
  \<^verbatim>\<open>trig_gats\<close>.
\<close>

definition adjacency_trigr :: "token list \<Rightarrow> span list \<Rightarrow> error + string frame" where
  "adjacency_trigr gatsby ws =
     for_each (ngram_step 5 (trig_gats gatsby) (trig_gats_filt gatsby))
       (enumerate 0 (shorter_gats gatsby)) (DataFrame (map str ws) (map str ws) 0)"

section \<open>The co-occurrence builder as the specification words it\<close>

text \<open>
  Section 4.2 of the specification: for each position \<open>i\<close> whose span is retained, the
  spans at positions \<open>i + 1\<close> to \<open>i + W\<close>, clipped to the end of the sequence, are examined,
  and each retained one adds one to the weight from the span at \<open>i\<close> to it. This is the
  weight the specification gives the edge from \<open>a\<close> to \<open>b\<close> for the span sequence \<open>xs\<close>
  and the retained set \<open>R\<close>.
\<close>

definition spec_cooccurrence :: "'a list \<Rightarrow> 'a set \<Rightarrow> nat \<Rightarrow> 'a \<Rightarrow> 'a \<Rightarrow> int" where
  "spec_cooccurrence xs R W a b =
     (\<Sum>i\<leftarrow>[0..<length xs].
        if xs ! i = a \<and> a \<in> R
        then (\<Sum>j\<leftarrow>[i + 1..<min (i + W + 1) (length xs)]. if xs ! j = b \<and> b \<in> R then 1 else 0)
        else 0)"

section \<open>Ranking and the report\<close>

text \<open>
  \<^verbatim>\<open>sorted(xs, reverse=True)\<close> sorts stably in descending order: elements that compare
  equal keep the order they had in \<open>xs\<close>. The key maps an element to what the comparison
  looks at.
\<close>

definition sorted_reverse :: "('a \<Rightarrow> 'k::linorder) \<Rightarrow> 'a list \<Rightarrow> 'a list" where
  "sorted_reverse key xs = rev (sort_key key (rev xs))"

text \<open>
  \<^verbatim>\<open>sorted(((ranks[i],s) for i,s in enumerate(words)), reverse=True)[:5]\<close>. The pairs are
  compared as tuples, first the score and then the node; \<open>ord\<close> gives the position by
  which nodes compare. \<^verbatim>\<open>ranks\<close> is the dictionary the ranking engine returned, and a
  missing index is a KeyError; \<open>score_pairs\<close> is the generator of the pairs, read where
  every index has a score.
\<close>

definition score_pairs :: "(nat \<rightharpoonup> 'r) \<Rightarrow> 'n list \<Rightarrow> ('r \<times> 'n) list" where
  "score_pairs ranks ws = map (\<lambda>(i, s). (the (ranks i), s)) (enumerate 0 ws)"

definition ranked_by :: "('n \<Rightarrow> nat) \<Rightarrow> (nat \<rightharpoonup> 'r::linorder) \<Rightarrow> 'n list \<Rightarrow> error + ('r \<times> 'n) list" where
  "ranked_by ord ranks ws =
     (if list_all (\<lambda>i. ranks i \<noteq> None) [0..<length ws]
      then Inr (take 5 (sorted_reverse (\<lambda>(r, s). (r, ord s)) (score_pairs ranks ws)))
      else Inl KeyError)"

definition ranked :: "(nat \<rightharpoonup> 'r::linorder) \<Rightarrow> token list \<Rightarrow> error + ('r \<times> token) list" where
  "ranked ranks ws = ranked_by fst ranks ws"

definition span_start :: "span \<Rightarrow> nat" where
  "span_start sp = (case sp of [] \<Rightarrow> 0 | t # _ \<Rightarrow> fst t)"

definition ranked_digr :: "(nat \<rightharpoonup> 'r::linorder) \<Rightarrow> span list \<Rightarrow> error + ('r \<times> span) list" where
  "ranked_digr ranks ws = ranked_by span_start ranks ws"

text \<open>
  The keyword pipeline for single words. The ranking engine is an external collaborator:
  \<open>pr\<close> takes the matrix of the grid and returns the dictionary of scores, or fails.
\<close>

definition keyword_summary :: "(int list list \<Rightarrow> error + (nat \<rightharpoonup> 'r::linorder)) \<Rightarrow> token list \<Rightarrow> token list
    \<Rightarrow> error + ('r \<times> token) list" where
  "keyword_summary pr gatsby ws =
     (case adjacency gatsby ws of
        Inl e \<Rightarrow> Inl e
      | Inr df \<Rightarrow> (case pr (as_matrix df) of Inl e \<Rightarrow> Inl e | Inr ranks \<Rightarrow> ranked ranks ws))"


section \<open>Example documents\<close>

definition tok :: "string \<Rightarrow> string \<Rightarrow> string \<Rightarrow> bool \<Rightarrow> bool \<Rightarrow> tagged" where
  "tok t w p s q = \<lparr>tok_text = t, whitespace = w, pos = p, is_stop = s, is_punct = q\<rparr>"


definition cat :: token where
  "cat = (1, tok ''cat'' '' '' ''NOUN'' False False)"

definition dog :: token where
  "dog = (5, tok ''dog'' '' '' ''NOUN'' False False)"

definition old_man_text :: "tagged list" where
  "old_man_text =
     [tok ''old'' '' '' ''ADJ'' False False, tok ''man'' '' '' ''NOUN'' False False]
     @ replicate 14 (tok ''the'' '' '' ''DET'' True False)
     @ [tok ''big'' '' '' ''ADJ'' False False, tok ''dog'' '' '' ''NOUN'' False False,
        tok ''ran'' [] ''VERB'' False False, tok ''.'' [] ''PUNCT'' False True]"

definition bd_dog :: token where
  "bd_dog = (1, tok ''dog'' '' '' ''NOUN'' False False)"

definition bd_man :: token where
  "bd_man = (4, tok ''man'' [] ''NOUN'' False False)"

definition bd_big_dog :: span where
  "bd_big_dog = [(0, tok ''big'' '' '' ''ADJ'' False False), bd_dog]"

definition bd_old_man :: span where
  "bd_old_man = [(3, tok ''old'' '' '' ''ADJ'' False False), bd_man]"

definition om_old_man :: span where
  "om_old_man = [(0, tok ''old'' '' '' ''ADJ'' False False), (1, tok ''man'' '' '' ''NOUN'' False False)]"

definition om_big_dog :: span where
  "om_big_dog = [(16, tok ''big'' '' '' ''ADJ'' False False), (17, tok ''dog'' '' '' ''NOUN'' False False)]"

text \<open>
  The tagged tokens of \<^verbatim>\<open>young men like the young men.\<close>, its two nouns and its two
  retained digrams.
\<close>

definition young_men_the :: "tagged list" where
  "young_men_the =
     [tok ''young'' '' '' ''ADJ'' False False, tok ''men'' '' '' ''NOUN'' False False,
      tok ''like'' '' '' ''VERB'' False False, tok ''the'' '' '' ''DET'' True False,
      tok ''young'' '' '' ''ADJ'' False False, tok ''men'' [] ''NOUN'' False False,
      tok ''.'' [] ''PUNCT'' False True]"

definition ymt_men1 :: token where
  "ymt_men1 = (1, tok ''men'' '' '' ''NOUN'' False False)"

definition ymt_men5 :: token where
  "ymt_men5 = (5, tok ''men'' [] ''NOUN'' False False)"

definition ymt_first :: span where
  "ymt_first = [(0, tok ''young'' '' '' ''ADJ'' False False), ymt_men1]"

definition ymt_second :: span where
  "ymt_second = [(4, tok ''young'' '' '' ''ADJ'' False False), ymt_men5]"

definition big_dog_ran :: "tagged list" where
  "big_dog_ran =
     [tok ''big'' '' '' ''ADJ'' False False, tok ''dog'' '' '' ''NOUN'' False False,
      tok ''ran'' [] ''VERB'' False False]"

definition young_men :: "tagged list" where
  "young_men =
     [tok ''young'' '' '' ''ADJ'' False False, tok ''men'' '' '' ''NOUN'' False False,
      tok ''like'' '' '' ''VERB'' False False, tok ''young'' '' '' ''ADJ'' False False,
      tok ''men'' [] ''NOUN'' False False, tok ''.'' [] ''PUNCT'' False True]"

text \<open>
  A stand-in ranking engine for examples: the score of a node is the sum of its row, and
  the empty graph gets the empty dictionary, as the graph library's pagerank returns it.
\<close>

definition degree_rank :: "int list list \<Rightarrow> error + (nat \<rightharpoonup> int)" where
  "degree_rank m = Inr (\<lambda>i. if i < length m then Some (sum_list (m ! i)) else None)"

text \<open>A dictionary of scores in which the first two nodes tie.\<close>

definition tied_scores :: "nat \<rightharpoonup> rat" where
  "tied_scores = [0 \<mapsto> 1, 1 \<mapsto> 1]"


section \<open>Properties of the window\<close>

lemma end_index_eq: "0 \<le> i \<Longrightarrow> 0 \<le> k \<Longrightarrow> end_index len i k = i + k"
  by (simp add: end_index_def)

lemma slice_eq_map_nth: "slice xs a b = map (\<lambda>j. xs ! j) [a..<min b (length xs)]"
proof (rule nth_equalityI)
  show "length (slice xs a b) = length (map (\<lambda>j. xs ! j) [a..<min b (length xs)])"
    by (simp add: slice_def min_def)
next
  fix n assume "n < length (slice xs a b)"
  then have n: "a + n < b" "a + n < length xs"
    by (simp_all add: slice_def)
  then have "slice xs a b ! n = xs ! (a + n)"
    by (simp add: slice_def)
  moreover from n have "map (\<lambda>j. xs ! j) [a..<min b (length xs)] ! n = xs ! (a + n)"
    by (simp del: upt_Suc)
  ultimately show "slice xs a b ! n = map (\<lambda>j. xs ! j) [a..<min b (length xs)] ! n"
    by simp
qed

lemma nextwords_eq:
  "nextwords xs i (int W + 1) = map (\<lambda>j. xs ! j) [i + 1..<min (i + W + 1) (length xs)]"
proof -
  have e: "nat (end_index (int (length xs)) (int i) (int W + 1)) = i + W + 1"
    by (simp add: end_index_def)
  show ?thesis
    unfolding nextwords_def e by (rule slice_eq_map_nth)
qed

text \<open>
  C10: on Python integers the end-index expression is \<open>i + W + 1\<close> whatever the length of
  the sequence is, so it never clips; the window is cut to the sequence only by the
  slice, and holds the positions \<open>i + 1\<close> to \<open>min (i + W) (L - 1)\<close>.
\<close>

theorem end_index_never_clips:
  "end_index L (int i) (int W + 1) = int i + int W + 1 \<and>
   nextwords xs i (int W + 1) = map (\<lambda>j. xs ! j) [i + 1..<min (i + W + 1) (length xs)]"
  by (simp add: end_index_def nextwords_eq)

section \<open>The unigram grid\<close>


lemma concat_map_if_singleton:
  "concat (map (\<lambda>x. if P x then [f x] else []) xs) = map f (filter P xs)"
  by (induction xs) simp_all

lemma neighbors_eq_filter: "neighbors filt nw = filter (\<lambda>x. x \<in> set filt) nw"
proof -
  have "neighbors filt nw = map (\<lambda>j. nw ! j) (filter (\<lambda>j. map (\<lambda>x. x \<in> set filt) nw ! j) [0..<length nw])"
    by (simp add: neighbors_def concat_map_if_singleton)
  also have "filter (\<lambda>j. map (\<lambda>x. x \<in> set filt) nw ! j) [0..<length nw]
             = filter (\<lambda>j. nw ! j \<in> set filt) [0..<length nw]"
    by (rule filter_cong) simp_all
  also have "map (\<lambda>j. nw ! j) (filter (\<lambda>j. nw ! j \<in> set filt) [0..<length nw])
             = filter (\<lambda>x. x \<in> set filt) (map (\<lambda>j. nw ! j) [0..<length nw])"
    by (simp add: filter_map comp_def)
  also have "map (\<lambda>j. nw ! j) [0..<length nw] = nw"
    by (rule map_nth)
  finally show ?thesis .
qed

lemma adjacency_step_eq:
  "adjacency_step k seq filt (i, w) df =
     (if w \<in> set filt \<and> neighbors filt (nextwords seq i k) \<noteq> []
      then loc_add1 df w (neighbors filt (nextwords seq i k)) else Inr df)"
  by (simp add: adjacency_step_def list_ex_iff Let_def)

lemma for_each_adjacency_step:
  assumes "set filt \<subseteq> set (index df)" "set filt \<subseteq> set (columns df)"
  shows "\<exists>df'. for_each (adjacency_step k seq filt) ps df = Inr df' \<and>
           index df' = index df \<and> columns df' = columns df \<and>
           (\<forall>a b. cell df' a b = cell df a b + window_hits k seq filt ps a b)"
  using assms
proof (induction ps arbitrary: df)
  case Nil
  then show ?case by (simp add: window_hits_def)
next
  case (Cons p ps)
  obtain i w where p: "p = (i, w)" by (cases p)
  let ?nb = "neighbors filt (nextwords seq i k)"
  have nb: "set ?nb \<subseteq> set filt"
    by (auto simp: neighbors_eq_filter)
  show ?case
  proof (cases "w \<in> set filt \<and> ?nb \<noteq> []")
    case True
    let ?df1 = "df\<lparr>cell := (\<lambda>r' c'. if r' = w \<and> c' \<in> set ?nb then cell df r' c' + 1 else cell df r' c')\<rparr>"
    from True Cons.prems nb have s: "adjacency_step k seq filt p df = Inr ?df1"
      by (auto simp: p adjacency_step_eq loc_add1_def)
    have "set filt \<subseteq> set (index ?df1)" "set filt \<subseteq> set (columns ?df1)"
      using Cons.prems by simp_all
    from Cons.IH [OF this] obtain df' where
      df': "for_each (adjacency_step k seq filt) ps ?df1 = Inr df'"
        "index df' = index df" "columns df' = columns df"
        "\<forall>a b. cell df' a b = cell ?df1 a b + window_hits k seq filt ps a b"
      by auto
    have "cell df' a b = cell df a b + window_hits k seq filt (p # ps) a b" for a b
      using df'(4) True nb by (auto simp: window_hits_def p)
    with df' s show ?thesis by simp
  next
    case False
    then have s: "adjacency_step k seq filt p df = Inr df"
      by (auto simp: p adjacency_step_eq)
    from Cons.IH [OF Cons.prems] obtain df' where
      df': "for_each (adjacency_step k seq filt) ps df = Inr df'"
        "index df' = index df" "columns df' = columns df"
        "\<forall>a b. cell df' a b = cell df a b + window_hits k seq filt ps a b"
      by auto
    have "window_hits k seq filt (p # ps) a b = window_hits k seq filt ps a b" for a b
      using False by (auto simp: window_hits_def p)
    with df' s show ?thesis by simp
  qed
qed


lemma enumerate_eq_map_nth: "enumerate 0 d = map (\<lambda>i. (i, d ! i)) [0..<length d]"
  by (rule nth_equalityI) (simp_all add: nth_enumerate_eq)

lemma window_hits_enumerate:
  "window_hits k seq filt (enumerate 0 d) a b =
     (\<Sum>i = 0..<length d. if d ! i = a \<and> a \<in> set filt \<and> b \<in> set (neighbors filt (nextwords seq i k))
                            then 1 else 0)"
  by (simp add: window_hits_def enumerate_eq_map_nth comp_def interv_sum_list_conv_sum_set_nat)


lemma distinct_parser: "distinct (parser raw)"
  by (simp add: parser_def distinct_enumerate)













section \<open>The digram grid\<close>

lemma for_each_loc_inc:
  assumes "r \<in> set (index df)" "str ` set nb \<subseteq> set (columns df)"
  shows "\<exists>df'. for_each (\<lambda>n df'. loc_inc df' r (str n)) nb df = Inr df' \<and>
           index df' = index df \<and> columns df' = columns df \<and>
           (\<forall>r' c'. cell df' r' c' =
              cell df r' c' + (if r' = r then int (length (filter (\<lambda>n. str n = c') nb)) else 0))"
  using assms
proof (induction nb arbitrary: df)
  case Nil
  then show ?case by simp
next
  case (Cons n nb)
  let ?df1 = "df\<lparr>cell := (\<lambda>r' c'. if r' = r \<and> c' = str n then cell df r' c' + 1 else cell df r' c')\<rparr>"
  from Cons.prems have s: "loc_inc df r (str n) = Inr ?df1"
    by (simp add: loc_inc_def)
  have "r \<in> set (index ?df1)" "str ` set nb \<subseteq> set (columns ?df1)"
    using Cons.prems by simp_all
  from Cons.IH [OF this] obtain df' where
    df': "for_each (\<lambda>n df'. loc_inc df' r (str n)) nb ?df1 = Inr df'"
      "index df' = index df" "columns df' = columns df"
      "\<And>r' c'. cell df' r' c' =
          cell ?df1 r' c' + (if r' = r then int (length (filter (\<lambda>n. str n = c') nb)) else 0)"
    by auto
  have "cell df' r' c' =
          cell df r' c' + (if r' = r then int (length (filter (\<lambda>m. str m = c') (n # nb))) else 0)" for r' c'
    using df'(4) [of r' c'] by simp
  with df' s show ?case by simp
qed

lemma ngram_step_eq:
  "ngram_step k seq filt (i, w) df =
     (if w \<in> set filt \<and> neighbors filt (nextwords seq i k) \<noteq> []
      then for_each (\<lambda>n df'. loc_inc df' (str w) (str n)) (neighbors filt (nextwords seq i k)) df
      else Inr df)"
  by (simp add: ngram_step_def list_ex_iff Let_def)

lemma for_each_ngram_step:
  assumes "str ` set filt \<subseteq> set (index df)" "str ` set filt \<subseteq> set (columns df)"
  shows "\<exists>df'. for_each (ngram_step k seq filt) ps df = Inr df' \<and>
           index df' = index df \<and> columns df' = columns df \<and>
           (\<forall>r c. cell df' r c = cell df r c + ngram_hits k seq filt ps r c)"
  using assms
proof (induction ps arbitrary: df)
  case Nil
  then show ?case by (simp add: ngram_hits_def)
next
  case (Cons p ps)
  obtain i w where p: "p = (i, w)" by (cases p)
  let ?nb = "neighbors filt (nextwords seq i k)"
  have nb: "set ?nb \<subseteq> set filt"
    by (auto simp: neighbors_eq_filter)
  have "\<exists>df1. ngram_step k seq filt p df = Inr df1 \<and> index df1 = index df \<and> columns df1 = columns df \<and>
          (\<forall>r c. cell df1 r c = cell df r c + ngram_hits k seq filt [p] r c)"
  proof (cases "w \<in> set filt \<and> ?nb \<noteq> []")
    case True
    then have "str w \<in> set (index df)" "str ` set ?nb \<subseteq> set (columns df)"
      using Cons.prems nb by auto
    from for_each_loc_inc [OF this] True show ?thesis
      by (auto simp: p ngram_step_eq ngram_hits_def)
  next
    case False
    then show ?thesis
      by (auto simp: p ngram_step_eq ngram_hits_def)
  qed
  then obtain df1 where df1: "ngram_step k seq filt p df = Inr df1" "index df1 = index df"
    "columns df1 = columns df" "\<And>r c. cell df1 r c = cell df r c + ngram_hits k seq filt [p] r c"
    by blast
  have "str ` set filt \<subseteq> set (index df1)" "str ` set filt \<subseteq> set (columns df1)"
    using Cons.prems df1 by simp_all
  from Cons.IH [OF this] obtain df' where
    df': "for_each (ngram_step k seq filt) ps df1 = Inr df'"
      "index df' = index df1" "columns df' = columns df1"
      "\<And>r c. cell df' r c = cell df1 r c + ngram_hits k seq filt ps r c"
    by blast
  have "ngram_hits k seq filt (p # ps) r c = ngram_hits k seq filt [p] r c + ngram_hits k seq filt ps r c" for r c
    by (simp add: ngram_hits_def)
  with df' df1 show ?case by simp
qed

lemma window_hits_nonneg: "0 \<le> window_hits k seq filt ps a b"
  unfolding window_hits_def by (rule sum_list_nonneg) auto

lemma ngram_hits_nonneg: "0 \<le> ngram_hits k seq filt ps r c"
  unfolding ngram_hits_def by (rule sum_list_nonneg) auto

lemma build_adjacency_frame:
  assumes "set ws = words gatsby"
  shows "\<exists>df. build_adjacency k gatsby ws = Inr df \<and> index df = ws \<and> columns df = ws \<and>
           (\<forall>a b. cell df a b = window_hits k gatsby (gatsby_filt gatsby) (enumerate 0 gatsby) a b)"
proof -
  let ?df0 = "DataFrame ws ws 0"
  have "set (gatsby_filt gatsby) \<subseteq> set (index ?df0)" "set (gatsby_filt gatsby) \<subseteq> set (columns ?df0)"
    using assms by (simp_all add: DataFrame_def words_def)
  from for_each_adjacency_step [OF this, of k gatsby "enumerate 0 gatsby"]
  show ?thesis
    by (auto simp: build_adjacency_def DataFrame_def)
qed

lemma build_adjacency_digr_frame:
  assumes "set ws = new_gats_words gatsby"
  shows "\<exists>df. build_adjacency_digr k gatsby ws = Inr df \<and> index df = map str ws \<and> columns df = map str ws \<and>
           (\<forall>r c. cell df r c =
              ngram_hits k (shorter_gats gatsby) (new_gats_filt gatsby) (enumerate 0 (shorter_gats gatsby)) r c)"
proof -
  let ?df0 = "DataFrame (map str ws) (map str ws) 0"
  have "str ` set (new_gats_filt gatsby) \<subseteq> set (index ?df0)"
       "str ` set (new_gats_filt gatsby) \<subseteq> set (columns ?df0)"
    using assms by (simp_all add: DataFrame_def new_gats_words_def)
  from for_each_ngram_step [OF this, of k "shorter_gats gatsby" "enumerate 0 (shorter_gats gatsby)"]
  show ?thesis
    by (auto simp: build_adjacency_digr_def DataFrame_def)
qed

text \<open>
  For every window literal \<open>k\<close> (the window size plus one), the unigram and the digram
  builder return a grid, never an exception; its matrix has one row and one column per
  element of the set the frame is made from, and every weight in it is a non-negative
  integer. \<open>ws\<close> and \<open>ws2\<close> are the orders in which the two sets are iterated.
\<close>

lemma grids_square_nonneg:
  assumes "distinct ws" "set ws = words (parser raw)"
    and "distinct ws2" "set ws2 = new_gats_words (parser raw)"
  shows "(\<exists>df. build_adjacency k (parser raw) ws = Inr df \<and>
            length (as_matrix df) = card (words (parser raw)) \<and>
            (\<forall>row\<in>set (as_matrix df). length row = card (words (parser raw)) \<and> (\<forall>x\<in>set row. 0 \<le> x))) \<and>
         (\<exists>df. build_adjacency_digr k (parser raw) ws2 = Inr df \<and>
            length (as_matrix df) = card (new_gats_words (parser raw)) \<and>
            (\<forall>row\<in>set (as_matrix df). length row = card (new_gats_words (parser raw)) \<and> (\<forall>x\<in>set row. 0 \<le> x)))"
proof
  from build_adjacency_frame [OF assms(2), of k] obtain df where
    df: "build_adjacency k (parser raw) ws = Inr df" "index df = ws" "columns df = ws"
      "\<And>a b. cell df a b = window_hits k (parser raw) (gatsby_filt (parser raw)) (enumerate 0 (parser raw)) a b"
    by blast
  have n: "length ws = card (words (parser raw))"
    using assms(1,2) distinct_card by fastforce
  have "length (as_matrix df) = card (words (parser raw))"
    by (simp add: as_matrix_def df n)
  moreover have "\<forall>row\<in>set (as_matrix df). length row = card (words (parser raw)) \<and> (\<forall>x\<in>set row. 0 \<le> x)"
    by (auto simp: as_matrix_def df n window_hits_nonneg)
  ultimately show "\<exists>df. build_adjacency k (parser raw) ws = Inr df \<and>
            length (as_matrix df) = card (words (parser raw)) \<and>
            (\<forall>row\<in>set (as_matrix df). length row = card (words (parser raw)) \<and> (\<forall>x\<in>set row. 0 \<le> x))"
    using df(1) by blast
next
  from build_adjacency_digr_frame [OF assms(4), of k] obtain df where
    df: "build_adjacency_digr k (parser raw) ws2 = Inr df" "index df = map str ws2" "columns df = map str ws2"
      "\<And>r c. cell df r c = ngram_hits k (shorter_gats (parser raw)) (new_gats_filt (parser raw))
                 (enumerate 0 (shorter_gats (parser raw))) r c"
    by blast
  have n: "length ws2 = card (new_gats_words (parser raw))"
    using assms(3,4) distinct_card by fastforce
  have "length (as_matrix df) = card (new_gats_words (parser raw))"
    by (simp add: as_matrix_def df n)
  moreover have "\<forall>row\<in>set (as_matrix df). length row = card (new_gats_words (parser raw)) \<and> (\<forall>x\<in>set row. 0 \<le> x)"
    by (auto simp: as_matrix_def df n ngram_hits_nonneg)
  ultimately show "\<exists>df. build_adjacency_digr k (parser raw) ws2 = Inr df \<and>
            length (as_matrix df) = card (new_gats_words (parser raw)) \<and>
            (\<forall>row\<in>set (as_matrix df). length row = card (new_gats_words (parser raw)) \<and> (\<forall>x\<in>set row. 0 \<le> x))"
    using df(1) by blast
qed

section \<open>The grids and the specified builder\<close>

lemma length_filter_conv_sum_list:
  "int (length (filter P ys)) = (\<Sum>y\<leftarrow>ys. if P y then 1 else 0)"
  by (induction ys) simp_all

lemma spec_cooccurrence_count:
  "spec_cooccurrence xs R W a b =
     (\<Sum>i = 0..<length xs. if xs ! i = a \<and> a \<in> R
        then int (length (filter (\<lambda>y. y = b \<and> b \<in> R) (nextwords xs i (int W + 1)))) else 0)"
proof -
  have "(\<Sum>j\<leftarrow>[i + 1..<min (i + W + 1) (length xs)]. if xs ! j = b \<and> b \<in> R then 1 else 0)
        = int (length (filter (\<lambda>y. y = b \<and> b \<in> R) (nextwords xs i (int W + 1))))" for i
    by (simp add: length_filter_conv_sum_list nextwords_eq comp_def)
  then show ?thesis
    unfolding spec_cooccurrence_def by (simp only: interv_sum_list_conv_sum_set_nat set_upt)
qed

lemma distinct_nextwords: "distinct xs \<Longrightarrow> distinct (nextwords xs i k)"
  by (simp add: nextwords_def slice_def)

lemma length_filter_eq_distinct:
  "distinct ys \<Longrightarrow> int (length (filter (\<lambda>y. y = b \<and> P) ys)) = (if b \<in> set ys \<and> P then 1 else 0)"
  by (induction ys) auto

lemma window_hits_spec:
  assumes "distinct d"
  shows "window_hits (int W + 1) d filt (enumerate 0 d) a b = spec_cooccurrence d (set filt) W a b"
proof -
  have "(if d ! i = a \<and> a \<in> set filt \<and> b \<in> set (neighbors filt (nextwords d i (int W + 1))) then 1 else 0)
        = (if d ! i = a \<and> a \<in> set filt
           then int (length (filter (\<lambda>y. y = b \<and> b \<in> set filt) (nextwords d i (int W + 1)))) else 0)" for i
    using distinct_nextwords [OF assms, of i "int W + 1"]
    by (auto simp: neighbors_eq_filter length_filter_eq_distinct)
  then show ?thesis
    by (simp add: window_hits_enumerate spec_cooccurrence_count)
qed

lemma ngram_hits_enumerate:
  "ngram_hits k seq filt (enumerate 0 xs) r c =
     (\<Sum>i = 0..<length xs. if xs ! i \<in> set filt \<and> str (xs ! i) = r
        then int (length (filter (\<lambda>n. str n = c) (neighbors filt (nextwords seq i k)))) else 0)"
  by (simp add: ngram_hits_def enumerate_eq_map_nth comp_def interv_sum_list_conv_sum_set_nat)

lemma sum_length_filter_eq:
  "finite B \<Longrightarrow> (\<Sum>b\<in>B. int (length (filter (\<lambda>y. y = b) ys))) = int (length (filter (\<lambda>y. y \<in> B) ys))"
proof (induction ys)
  case Nil
  then show ?case by simp
next
  case (Cons y ys)
  have "(\<Sum>b\<in>B. int (length (filter (\<lambda>z. z = b) (y # ys))))
        = (\<Sum>b\<in>B. (if y = b then 1 else 0) + int (length (filter (\<lambda>z. z = b) ys)))"
    by (intro sum.cong refl) simp
  also have "\<dots> = (\<Sum>b\<in>B. if y = b then 1 else 0) + (\<Sum>b\<in>B. int (length (filter (\<lambda>z. z = b) ys)))"
    by (rule sum.distrib)
  also have "(\<Sum>b\<in>B. if y = b then 1 else 0) = (if y \<in> B then 1 else (0::int))"
    using Cons.prems by simp
  finally show ?case
    using Cons by simp
qed

lemma ngram_hits_spec_sum:
  "ngram_hits (int W + 1) xs filt (enumerate 0 xs) r c =
     (\<Sum>a\<in>{x \<in> set filt. str x = r}. \<Sum>b\<in>{y \<in> set filt. str y = c}.
        spec_cooccurrence xs (set filt) W a b)"
proof -
  let ?A = "{x \<in> set filt. str x = r}" and ?B = "{y \<in> set filt. str y = c}"
  let ?nw = "\<lambda>i. nextwords xs i (int W + 1)"
  let ?F = "\<lambda>i. int (length (filter (\<lambda>y. y \<in> ?B) (?nw i)))"
  have fin: "finite ?A" "finite ?B" by simp_all
  have inner: "(\<Sum>b\<in>?B. spec_cooccurrence xs (set filt) W a b)
               = (\<Sum>i = 0..<length xs. if xs ! i = a then ?F i else 0)" if "a \<in> ?A" for a
  proof -
    have "(\<Sum>b\<in>?B. spec_cooccurrence xs (set filt) W a b)
          = (\<Sum>b\<in>?B. \<Sum>i = 0..<length xs. if xs ! i = a then int (length (filter (\<lambda>y. y = b) (?nw i))) else 0)"
      unfolding spec_cooccurrence_count using that
      by (intro sum.cong refl) (simp cong: if_cong)
    also have "\<dots> = (\<Sum>i = 0..<length xs. \<Sum>b\<in>?B. if xs ! i = a then int (length (filter (\<lambda>y. y = b) (?nw i))) else 0)"
      by (rule sum.swap)
    also have "\<dots> = (\<Sum>i = 0..<length xs. if xs ! i = a then ?F i else 0)"
      by (intro sum.cong refl) (simp add: sum_length_filter_eq [OF fin(2)])
    finally show ?thesis .
  qed
  have "(\<Sum>a\<in>?A. \<Sum>b\<in>?B. spec_cooccurrence xs (set filt) W a b)
        = (\<Sum>a\<in>?A. \<Sum>i = 0..<length xs. if xs ! i = a then ?F i else 0)"
    by (intro sum.cong refl inner)
  also have "\<dots> = (\<Sum>i = 0..<length xs. \<Sum>a\<in>?A. if xs ! i = a then ?F i else 0)"
    by (rule sum.swap)
  also have "\<dots> = (\<Sum>i = 0..<length xs. if xs ! i \<in> ?A then ?F i else 0)"
    by (intro sum.cong refl) (simp add: sum.delta' [OF fin(1)])
  also have "\<dots> = ngram_hits (int W + 1) xs filt (enumerate 0 xs) r c"
    unfolding ngram_hits_enumerate neighbors_eq_filter filter_filter
    by (intro sum.cong refl) (simp cong: conj_cong)
  finally show ?thesis by simp
qed

lemma new_gats_filt_old_man: "new_gats_filt (parser old_man_text) = [om_old_man, om_big_dog]"
  by code_simp

text \<open>
  C3, as the code has it: the unigram loop scans the whole token sequence with \<open>W = 4\<close>,
  and its weights are those of the specified builder on that sequence. The digram loop
  scans \<^verbatim>\<open>shorter_gats\<close>, the digram sequence from which the digrams with punctuation or a
  stop word have been removed, with \<open>W = 14\<close> counted in positions of that filtered
  sequence. Its grid is addressed by the text of the digrams, so the weight it holds for a
  pair of texts is the sum of the weights of the specified builder on \<^verbatim>\<open>shorter_gats\<close> over
  the retained digrams that carry these texts.
\<close>

theorem outer_scan_sequences:
  assumes "set ws = words (parser raw)" "set ws2 = new_gats_words (parser raw)"
  shows "(\<exists>df. adjacency (parser raw) ws = Inr df \<and>
            (\<forall>a b. cell df a b = spec_cooccurrence (parser raw) (words (parser raw)) 4 a b)) \<and>
         (\<exists>df. adjacency_digr (parser raw) ws2 = Inr df \<and>
            (\<forall>r c. cell df r c =
               (\<Sum>a\<in>{x \<in> new_gats_words (parser raw). str x = r}.
                \<Sum>b\<in>{y \<in> new_gats_words (parser raw). str y = c}.
                  spec_cooccurrence (shorter_gats (parser raw)) (new_gats_words (parser raw)) 14 a b)))"
proof
  from build_adjacency_frame [OF assms(1), of "int 4 + 1"]
  show "\<exists>df. adjacency (parser raw) ws = Inr df \<and>
            (\<forall>a b. cell df a b = spec_cooccurrence (parser raw) (words (parser raw)) 4 a b)"
    unfolding window_hits_spec [OF distinct_parser] by (auto simp: adjacency_def words_def)
next
  from build_adjacency_digr_frame [OF assms(2), of "int 14 + 1"]
  obtain df where df: "build_adjacency_digr (int 14 + 1) (parser raw) ws2 = Inr df"
    "\<And>r c. cell df r c = ngram_hits (int 14 + 1) (shorter_gats (parser raw)) (new_gats_filt (parser raw))
                 (enumerate 0 (shorter_gats (parser raw))) r c"
    by blast
  have "cell df r c =
          (\<Sum>a\<in>{x \<in> new_gats_words (parser raw). str x = r}.
           \<Sum>b\<in>{y \<in> new_gats_words (parser raw). str y = c}.
             spec_cooccurrence (shorter_gats (parser raw)) (new_gats_words (parser raw)) 14 a b)" for r c
    unfolding df(2) new_gats_words_def by (rule ngram_hits_spec_sum)
  with df(1) show "\<exists>df. adjacency_digr (parser raw) ws2 = Inr df \<and>
            (\<forall>r c. cell df r c =
               (\<Sum>a\<in>{x \<in> new_gats_words (parser raw). str x = r}.
                \<Sum>b\<in>{y \<in> new_gats_words (parser raw). str y = c}.
                  spec_cooccurrence (shorter_gats (parser raw)) (new_gats_words (parser raw)) 14 a b))"
    by (auto simp: adjacency_digr_def)
qed

text \<open>
  C3 as stated fails for digrams. In \<^verbatim>\<open>old man\<close>, fourteen times \<^verbatim>\<open>the\<close>, \<^verbatim>\<open>big dog ran.\<close>
  the two retained digrams are sixteen positions apart in the unfiltered digram sequence,
  so the builder over that sequence with \<open>W = 14\<close> gives weight 0 from \<^verbatim>\<open>old man\<close> to
  \<^verbatim>\<open>big dog\<close>, with or without the two trailing windows; the code gives 1 (row 0, column 1
  of the matrix, the rows and columns being \<^verbatim>\<open>old man\<close>, \<^verbatim>\<open>big dog\<close>), because in the filtered
  sequence they are neighbours.
\<close>

theorem outer_scan_counterexample:
  "map_sum id as_matrix (adjacency_digr (parser old_man_text) [om_old_man, om_big_dog]) = Inr [[0, 1], [0, 0]] \<and>
   spec_cooccurrence (new_gats (parser old_man_text)) (new_gats_words (parser old_man_text)) 14
     om_old_man om_big_dog = 0 \<and>
   spec_cooccurrence (drop_last2 (new_gats (parser old_man_text))) (new_gats_words (parser old_man_text)) 14
     om_old_man om_big_dog = 0"
  by code_simp

lemma gatsby_filt_young_men_the: "gatsby_filt (parser young_men_the) = [ymt_men1, ymt_men5]"
  by code_simp

lemma new_gats_filt_young_men_the: "new_gats_filt (parser young_men_the) = [ymt_first, ymt_second]"
  by code_simp

lemma lens_ymt: "length (shorter_gats (parser young_men_the)) = 3"
  "length (drop_last2 (new_gats (parser young_men_the))) = 5"
  by code_simp+

lemma spec_ymt:
  "(\<Sum>a\<in>{x \<in> set [ymt_first, ymt_second]. str x = ''young men''}.
    \<Sum>b\<in>{y \<in> set [ymt_first, ymt_second]. str y = ''young men''}.
      spec_cooccurrence (shorter_gats (parser young_men_the)) (set [ymt_first, ymt_second]) 14 a b) = 1"
  by code_simp

theorem outer_scan_sequences_witness:
  "set [ymt_men1, ymt_men5] = words (parser young_men_the) \<and>
   set [ymt_first, ymt_second] = new_gats_words (parser young_men_the) \<and>
   length (shorter_gats (parser young_men_the)) = 3 \<and>
   length (drop_last2 (new_gats (parser young_men_the))) = 5 \<and>
   (\<exists>df. adjacency_digr (parser young_men_the) [ymt_first, ymt_second] = Inr df \<and>
      cell df ''young men'' ''young men'' = 1)"
proof -
  have h1: "set [ymt_men1, ymt_men5] = words (parser young_men_the)"
    by (simp add: words_def gatsby_filt_young_men_the)
  have h2: "set [ymt_first, ymt_second] = new_gats_words (parser young_men_the)"
    by (simp add: new_gats_words_def new_gats_filt_young_men_the)
  from outer_scan_sequences [OF h1 h2]
  obtain df where df: "adjacency_digr (parser young_men_the) [ymt_first, ymt_second] = Inr df"
    and c: "\<And>r c. cell df r c =
               (\<Sum>a\<in>{x \<in> new_gats_words (parser young_men_the). str x = r}.
                \<Sum>b\<in>{y \<in> new_gats_words (parser young_men_the). str y = c}.
                  spec_cooccurrence (shorter_gats (parser young_men_the))
                    (new_gats_words (parser young_men_the)) 14 a b)"
    by blast
  have "cell df ''young men'' ''young men'' = 1"
    unfolding c h2 [symmetric] by (rule spec_ymt)
  with h1 h2 lens_ymt df show ?thesis
    by blast
qed

section \<open>Windowing\<close>

lemma length_drop_last2_new_gats: "length (drop_last2 (new_gats gatsby)) = length gatsby - 2"
  by (simp add: drop_last2_def new_gats_def)

lemma length_drop_last2_trig_gats_all: "length (drop_last2 (trig_gats_all gatsby)) = length gatsby - 2"
  by (simp add: drop_last2_def trig_gats_all_def)

lemma drop_last2_windows_full:
  "sp \<in> set (drop_last2 (new_gats gatsby)) \<Longrightarrow> length sp = 2"
  "sp \<in> set (drop_last2 (trig_gats_all gatsby)) \<Longrightarrow> length sp = 3"
  by (auto simp: drop_last2_def new_gats_def trig_gats_all_def slice_def take_map)

text \<open>
  C2 at the failing input: for digrams \<^verbatim>\<open>new_gats[:-2]\<close> keeps \<open>L - 2\<close> windows, one fewer
  than the \<open>L - 1\<close> full ones. For the three tokens \<^verbatim>\<open>big dog ran\<close> only the digram
  \<^verbatim>\<open>big dog\<close> is left, and the full digram \<^verbatim>\<open>dog ran\<close> is dropped with the partial window.
\<close>

theorem digram_windows_drop_two:
  "length (drop_last2 (new_gats gatsby)) = length gatsby - 2 \<and>
   length (parser big_dog_ran) = 3 \<and>
   drop_last2 (new_gats (parser big_dog_ran)) = [[parser big_dog_ran ! 0, parser big_dog_ran ! 1]] \<and>
   second_gats (parser big_dog_ran) = [[parser big_dog_ran ! 0, parser big_dog_ran ! 1]] \<and>
   [parser big_dog_ran ! 1, parser big_dog_ran ! 2] \<notin> set (second_gats (parser big_dog_ran))"
proof -
  have "length (parser big_dog_ran) = 3 \<and>
   drop_last2 (new_gats (parser big_dog_ran)) = [[parser big_dog_ran ! 0, parser big_dog_ran ! 1]] \<and>
   second_gats (parser big_dog_ran) = [[parser big_dog_ran ! 0, parser big_dog_ran ! 1]] \<and>
   [parser big_dog_ran ! 1, parser big_dog_ran ! 2] \<notin> set (second_gats (parser big_dog_ran))"
    by code_simp
  with length_drop_last2_new_gats [of gatsby] show ?thesis
    by blast
qed

section \<open>Identity of nodes\<close>

lemma distinct_gatsby_filt: "distinct (gatsby_filt (parser raw))"
  by (simp add: gatsby_filt_def distinct_parser)

text \<open>
  C6 at the failing input: the set holds tokens, and tokens are equal only at the same
  position, so the set has one element per retained occurrence. In
  \<^verbatim>\<open>young men like young men.\<close> the noun \<^verbatim>\<open>men\<close> is two nodes, and the digram \<^verbatim>\<open>young men\<close>
  is two nodes that carry the same label.
\<close>

theorem words_not_unique_by_text:
  "card (words (parser raw)) = length (gatsby_filt (parser raw)) \<and>
   map (\<lambda>w. tok_text (snd w)) (gatsby_filt (parser young_men)) = [''men'', ''men''] \<and>
   card (words (parser young_men)) = 2 \<and>
   map str (new_gats_filt (parser young_men)) = [''young men'', ''young men''] \<and>
   card (new_gats_words (parser young_men)) = 2"
proof -
  have "card (words (parser raw)) = length (gatsby_filt (parser raw))"
    by (simp add: words_def distinct_card distinct_gatsby_filt)
  moreover have "map (\<lambda>w. tok_text (snd w)) (gatsby_filt (parser young_men)) = [''men'', ''men'']"
    by code_simp
  moreover have "card (words (parser young_men)) = 2"
    unfolding words_def by code_simp
  moreover have "map str (new_gats_filt (parser young_men)) = [''young men'', ''young men'']"
    by code_simp
  moreover have "card (new_gats_words (parser young_men)) = 2"
    unfolding new_gats_words_def by code_simp
  ultimately show ?thesis by blast
qed

text \<open>
  C4 at the failing input: the grid has one row and one column per retained occurrence,
  not per retained span. In \<^verbatim>\<open>young men like young men.\<close> one noun and one digram are
  retained, each occurring twice, and both grids are 2 by 2; the rows and columns of the
  digram grid all carry the label \<^verbatim>\<open>young men\<close>. The grids are square and their weights
  non-negative (\<open>grids_square_nonneg\<close>).
\<close>

theorem grid_dimension_counts_occurrences:
  "map_sum id as_matrix (adjacency (parser young_men) (gatsby_filt (parser young_men))) = Inr [[0, 1], [0, 0]] \<and>
   card ((tok_text \<circ> snd) ` words (parser young_men)) = 1 \<and>
   map_sum id as_matrix (adjacency_digr (parser young_men) (new_gats_filt (parser young_men))) =
     Inr [[1, 1], [1, 1]] \<and>
   card (str ` new_gats_words (parser young_men)) = 1"
proof -
  have "map_sum id as_matrix (adjacency (parser young_men) (gatsby_filt (parser young_men))) = Inr [[0, 1], [0, 0]]"
    by code_simp
  moreover have "card ((tok_text \<circ> snd) ` words (parser young_men)) = 1"
    unfolding words_def by code_simp
  moreover have "map_sum id as_matrix (adjacency_digr (parser young_men) (new_gats_filt (parser young_men))) =
     Inr [[1, 1], [1, 1]]"
    by code_simp
  moreover have "card (str ` new_gats_words (parser young_men)) = 1"
    unfolding new_gats_words_def by code_simp
  ultimately show ?thesis by blast
qed

section \<open>The trigram grid\<close>

lemma for_each_unchanged: "(\<And>x. x \<in> set xs \<Longrightarrow> f x s = Inr s) \<Longrightarrow> for_each f xs s = Inr s"
  by (induction xs) simp_all

lemma shorter_gats_length: "sp \<in> set (shorter_gats gatsby) \<Longrightarrow> length sp = 2"
  by (auto simp: shorter_gats_def second_gats_def drop_last2_windows_full)

lemma trig_gats_filt_length: "sp \<in> set (trig_gats_filt gatsby) \<Longrightarrow> length sp = 3"
  by (auto simp: trig_gats_filt_def trig_gats_def drop_last2_windows_full)

text \<open>
  The elements the trigram loop enumerates are digrams, which never equal a trigram, so
  no iteration of the loop changes the grid: it stays all zero.
\<close>

lemma adjacency_trigr_unchanged:
  "adjacency_trigr gatsby ws = Inr (DataFrame (map str ws) (map str ws) 0)"
  unfolding adjacency_trigr_def
proof (rule for_each_unchanged)
  fix x assume "x \<in> set (enumerate 0 (shorter_gats gatsby))"
  then have "fst x < length (shorter_gats gatsby)" "shorter_gats gatsby ! fst x = snd x"
    by (simp_all add: in_set_enumerate_eq)
  then have "snd x \<in> set (shorter_gats gatsby)"
    using nth_mem by fastforce
  then obtain i w where x: "x = (i, w)" "w \<in> set (shorter_gats gatsby)"
    by (cases x) simp
  then have "w \<notin> set (trig_gats_filt gatsby)"
    using shorter_gats_length [of w gatsby] trig_gats_filt_length [of w gatsby] by auto
  then show "ngram_step 5 (trig_gats gatsby) (trig_gats_filt gatsby) x (DataFrame (map str ws) (map str ws) 0)
             = Inr (DataFrame (map str ws) (map str ws) 0)"
    by (simp add: x ngram_step_eq)
qed

section \<open>The report\<close>

lemma sorted_reverse_mset: "mset (sorted_reverse key xs) = mset xs"
  by (simp add: sorted_reverse_def)

lemma sorted_reverse_descending:
  "sorted_wrt (\<lambda>p q. key q \<le> key p) (sorted_reverse key xs)"
proof -
  have "sorted (map key (sort_key key (rev xs)))"
    by (rule sorted_sort_key)
  then show ?thesis
    by (simp add: sorted_reverse_def sorted_wrt_rev sorted_map)
qed

lemma filter_eq_distinct: "distinct xs \<Longrightarrow> k \<in> set xs \<Longrightarrow> filter (\<lambda>x. k = x) xs = [k]"
  by (induction xs) (auto simp: filter_empty_conv)

lemma sort_key_unique:
  assumes "mset xs = mset ys" "inj_on key (set xs)" "distinct xs"
  shows "sort_key key xs = sort_key key ys"
proof (rule properties_for_sort_key [symmetric])
  show "mset (sort_key key xs) = mset ys"
    using assms(1) by simp
next
  fix k assume k: "k \<in> set (sort_key key xs)"
  have s: "set ys = set xs" "distinct ys"
    using assms(1,3) mset_eq_setD [of xs ys] mset_eq_imp_distinct_iff [of xs ys] by simp_all
  have e: "key k = key x \<longleftrightarrow> k = x" if "x \<in> set xs" for x
    using k that assms(2) by (auto dest: inj_onD)
  have "filter (\<lambda>x. key k = key x) (sort_key key xs) = filter (\<lambda>x. k = x) (sort_key key xs)"
    by (rule filter_cong) (simp_all add: e)
  also have "\<dots> = [k]"
    using k assms(3) by (intro filter_eq_distinct) simp_all
  finally have 1: "filter (\<lambda>x. key k = key x) (sort_key key xs) = [k]" .
  have "filter (\<lambda>x. key k = key x) ys = filter (\<lambda>x. k = x) ys"
    by (rule filter_cong) (simp_all add: e s)
  also have "\<dots> = [k]"
    using k s by (intro filter_eq_distinct) simp_all
  finally show "filter (\<lambda>x. key k = key x) (sort_key key xs) = filter (\<lambda>x. key k = key x) ys"
    using 1 by simp
next
  show "sorted (map key (sort_key key xs))"
    by (rule sorted_sort_key)
qed

lemma sorted_reverse_unique:
  assumes "mset xs = mset ys" "inj_on key (set xs)" "distinct xs"
  shows "sorted_reverse key xs = sorted_reverse key ys"
proof -
  have "sort_key key (rev xs) = sort_key key (rev ys)"
    using assms by (intro sort_key_unique) simp_all
  then show ?thesis
    by (simp add: sorted_reverse_def)
qed

lemma score_pairs_nth: "score_pairs ranks ws = map (\<lambda>i. (the (ranks i), ws ! i)) [0..<length ws]"
  by (simp add: score_pairs_def enumerate_eq_map_nth)

lemma ranked_by_total:
  assumes "\<forall>i<length ws. ranks i \<noteq> None"
  shows "ranked_by ord ranks ws = Inr (take 5 (sorted_reverse (\<lambda>(r, s). (r, ord s)) (score_pairs ranks ws)))"
  using assms by (simp add: ranked_by_def list_all_iff)


lemma pair_key_descending:
  "sorted_wrt (\<lambda>p q. fst q < fst p \<or> (fst q = fst p \<and> ord (snd q) \<le> ord (snd p)))
     (sorted_reverse (\<lambda>(r, s). (r, ord s)) ps)"
proof -
  have "sorted_wrt (\<lambda>p q. (case q of (r, s) \<Rightarrow> (r, ord s)) \<le> (case p of (r, s) \<Rightarrow> (r, ord s)))
          (sorted_reverse (\<lambda>(r, s). (r, ord s)) ps)"
    by (rule sorted_reverse_descending)
  then show ?thesis
    by (rule sorted_wrt_mono_rel [rotated]) (auto simp: less_eq_prod_def split: prod.splits)
qed


lemma pair_key_inj:
  assumes "inj_on ord (set ws)"
  shows "inj_on (\<lambda>(r, s). (r, ord s)) (set (score_pairs ranks ws))"
proof (rule inj_onI)
  fix p q
  assume "p \<in> set (score_pairs ranks ws)" "q \<in> set (score_pairs ranks ws)"
    and e: "(case p of (r, s) \<Rightarrow> (r, ord s)) = (case q of (r, s) \<Rightarrow> (r, ord s))"
  then have "snd p \<in> set ws" "snd q \<in> set ws"
    by (auto simp: score_pairs_nth)
  with assms e show "p = q"
    by (auto split: prod.splits dest: inj_onD)
qed

lemma distinct_score_pairs: "distinct ws \<Longrightarrow> distinct (score_pairs ranks ws)"
proof -
  assume "distinct ws"
  moreover have "map snd (score_pairs ranks ws) = ws"
    by (simp add: score_pairs_nth comp_def map_nth)
  ultimately have "distinct (map snd (score_pairs ranks ws))"
    by simp
  then show ?thesis
    by (simp add: distinct_map)
qed

lemma ranked_by_deterministic:
  assumes "mset (score_pairs ranks' ws') = mset (score_pairs ranks ws)"
    and "\<forall>i<length ws. ranks i \<noteq> None" "\<forall>i<length ws'. ranks' i \<noteq> None"
    and "distinct ws" "inj_on ord (set ws)"
  shows "ranked_by ord ranks' ws' = ranked_by ord ranks ws"
proof -
  have "sorted_reverse (\<lambda>(r, s). (r, ord s)) (score_pairs ranks ws)
        = sorted_reverse (\<lambda>(r, s). (r, ord s)) (score_pairs ranks' ws')"
    using assms by (intro sorted_reverse_unique pair_key_inj distinct_score_pairs) simp_all
  then show ?thesis
    using assms(2,3) by (simp add: ranked_by_total)
qed

text \<open>
  C5, as the code has it: when every node index has a score, the reporter returns the
  first five elements of the (score, node) pairs sorted in descending order of the whole
  pair: by score descending, and among equal scores by node position descending (the node
  that comes later in the document first). When the nodes have different positions the
  output depends only on the collection of pairs, not on the order in which they are
  enumerated. The same holds for the digram reporter, with spans ordered by their start.
\<close>

theorem ranked_descending:
  assumes "\<forall>i<length ws. ranks i \<noteq> None" "\<forall>i<length ws2. ranks2 i \<noteq> None"
  shows "(\<exists>full. ranked ranks ws = Inr (take 5 full) \<and>
            mset full = mset (score_pairs ranks ws) \<and>
            sorted_wrt (\<lambda>p q. fst q < fst p \<or> (fst q = fst p \<and> fst (snd q) \<le> fst (snd p))) full) \<and>
         (\<exists>full. ranked_digr ranks2 ws2 = Inr (take 5 full) \<and>
            mset full = mset (score_pairs ranks2 ws2) \<and>
            sorted_wrt (\<lambda>p q. fst q < fst p \<or> (fst q = fst p \<and> span_start (snd q) \<le> span_start (snd p))) full) \<and>
         (\<forall>ranks' ws'. mset (score_pairs ranks' ws') = mset (score_pairs ranks ws) \<and>
            (\<forall>i<length ws'. ranks' i \<noteq> None) \<and> distinct (map fst ws)
            \<longrightarrow> ranked ranks' ws' = ranked ranks ws)"
proof -
  let ?full = "sorted_reverse (\<lambda>(r, s). (r, fst s)) (score_pairs ranks ws)"
  have "ranked ranks ws = Inr (take 5 ?full)"
    using assms(1) by (simp add: ranked_def ranked_by_total)
  moreover have "mset ?full = mset (score_pairs ranks ws)"
    by (rule sorted_reverse_mset)
  moreover have "sorted_wrt (\<lambda>p q. fst q < fst p \<or> (fst q = fst p \<and> fst (snd q) \<le> fst (snd p))) ?full"
    by (rule pair_key_descending)
  ultimately have a: "\<exists>full. ranked ranks ws = Inr (take 5 full) \<and>
            mset full = mset (score_pairs ranks ws) \<and>
            sorted_wrt (\<lambda>p q. fst q < fst p \<or> (fst q = fst p \<and> fst (snd q) \<le> fst (snd p))) full"
    by blast
  let ?full2 = "sorted_reverse (\<lambda>(r, s). (r, span_start s)) (score_pairs ranks2 ws2)"
  have "ranked_digr ranks2 ws2 = Inr (take 5 ?full2)"
    using assms(2) by (simp add: ranked_digr_def ranked_by_total)
  moreover have "mset ?full2 = mset (score_pairs ranks2 ws2)"
    by (rule sorted_reverse_mset)
  moreover have "sorted_wrt (\<lambda>p q. fst q < fst p \<or> (fst q = fst p \<and> span_start (snd q) \<le> span_start (snd p))) ?full2"
    by (rule pair_key_descending)
  ultimately have b: "\<exists>full. ranked_digr ranks2 ws2 = Inr (take 5 full) \<and>
            mset full = mset (score_pairs ranks2 ws2) \<and>
            sorted_wrt (\<lambda>p q. fst q < fst p \<or> (fst q = fst p \<and> span_start (snd q) \<le> span_start (snd p))) full"
    by blast
  have c: "ranked ranks' ws' = ranked ranks ws"
    if "mset (score_pairs ranks' ws') = mset (score_pairs ranks ws)"
      "\<forall>i<length ws'. ranks' i \<noteq> None" "distinct (map fst ws)" for ranks' ws'
    unfolding ranked_def using that assms(1)
    by (intro ranked_by_deterministic) (simp_all add: distinct_map)
  from a b c show ?thesis by blast
qed

text \<open>
  C5 as stated fails on ties: with equal scores for cat (position 1) and dog (position 5),
  dog is reported before cat, the reverse of their natural order (and of the
  lexicographic order of their texts).
\<close>

theorem ranked_ties_counterexample:
  "ranked tied_scores [cat, dog] = Inr [(1, dog), (1, cat)] \<and> fst cat < fst dog"
  by code_simp

theorem ranked_descending_witness:
  "tied_scores 0 \<noteq> None \<and> tied_scores 1 \<noteq> None \<and>
   length [cat, dog] = 2 \<and> length [bd_old_man, bd_big_dog] = 2 \<and>
   (\<exists>full. ranked tied_scores [cat, dog] = Inr (take 5 full) \<and>
      mset full = mset (score_pairs tied_scores [cat, dog])) \<and>
   (\<exists>full. ranked_digr tied_scores [bd_old_man, bd_big_dog] = Inr (take 5 full) \<and>
      mset full = mset (score_pairs tied_scores [bd_old_man, bd_big_dog]))"
proof -
  have h1: "\<forall>i<length [cat, dog]. tied_scores i \<noteq> None"
    by (simp add: tied_scores_def less_Suc_eq)
  have h2: "\<forall>i<length [bd_old_man, bd_big_dog]. tied_scores i \<noteq> None"
    by (simp add: tied_scores_def less_Suc_eq)
  have h3: "tied_scores 0 \<noteq> None \<and> tied_scores 1 \<noteq> None"
    by (simp add: tied_scores_def)
  from ranked_descending [OF h1 h2]
  have "(\<exists>full. ranked tied_scores [cat, dog] = Inr (take 5 full) \<and>
      mset full = mset (score_pairs tied_scores [cat, dog])) \<and>
     (\<exists>full. ranked_digr tied_scores [bd_old_man, bd_big_dog] = Inr (take 5 full) \<and>
      mset full = mset (score_pairs tied_scores [bd_old_man, bd_big_dog]))"
    by blast
  with h3 show ?thesis
    by simp
qed

section \<open>Independence of the iteration order\<close>







section \<open>The empty text\<close>

text \<open>
  C8, as the code has it: for the empty text the retained set is empty and the grid is
  the empty matrix; the source has no check of its own for this case. If the ranking
  engine fails on the empty matrix, that failure is the result; otherwise the reporter
  returns the empty list.
\<close>

theorem empty_text_passes_through:
  "gatsby_filt (parser []) = [] \<and> words (parser []) = {} \<and>
   map_sum id as_matrix (adjacency (parser []) []) = Inr [] \<and>
   keyword_summary pr (parser []) [] = (case pr [] of Inl e \<Rightarrow> Inl e | Inr ranks \<Rightarrow> Inr [])"
proof -
  have a: "gatsby_filt (parser []) = []" "words (parser []) = {}"
    by (simp_all add: words_def gatsby_filt_def parser_def)
  have b: "adjacency (parser []) [] = Inr (DataFrame [] [] 0)"
    by (simp add: adjacency_def build_adjacency_def parser_def)
  have c: "as_matrix (DataFrame [] [] 0) = []"
    by (simp add: as_matrix_def DataFrame_def)
  have d: "ranked ranks [] = Inr []" for ranks :: "nat \<rightharpoonup> 'a"
    by (simp add: ranked_def ranked_by_def score_pairs_def sorted_reverse_def)
  have "keyword_summary pr (parser []) [] = (case pr [] of Inl e \<Rightarrow> Inl e | Inr ranks \<Rightarrow> Inr [])"
    by (simp add: keyword_summary_def b c d split: sum.splits)
  with a b c show ?thesis
    by simp
qed

text \<open>
  C8 as stated fails: with an engine that returns the empty dictionary for the empty
  graph, the pipeline on the empty text ends normally with the empty list, not with an
  error.
\<close>

theorem empty_text_counterexample:
  "keyword_summary degree_rank (parser []) [] = Inr [] \<and> words (parser []) = {}"
proof -
  have "keyword_summary degree_rank (parser []) [] = Inr []"
    by code_simp
  moreover have "words (parser []) = {}"
    by (simp add: words_def gatsby_filt_def parser_def)
  ultimately show ?thesis by blast
qed

end
